theory Spec2Isabelle
  imports Main "HOL-Library.Sublist" "HOL-Library.AList" "HOL-Library.Multiset"
begin

section \<open>Python string operations used by the searcher\<close>

text \<open>
  Python \<open>str\<close> values are modelled as \<^typ>\<open>string\<close>: a \<^typ>\<open>char\<close> is a code point
  below 256, and the operations below are Python's on every such code point.

  \<open>str.lower\<close> maps A to Z and the capital letters 0xC0 to 0xDE (the multiplication sign
  0xD7 apart) to the letter 32 places further on, and leaves every other code point below
  256 as it is.
\<close>

definition upper_letters :: string where
  "upper_letters =
     ''ABCDEFGHIJKLMNOPQRSTUVWXYZ'' @
     [CHR 0xC0, CHR 0xC1, CHR 0xC2, CHR 0xC3, CHR 0xC4, CHR 0xC5, CHR 0xC6, CHR 0xC7,
      CHR 0xC8, CHR 0xC9, CHR 0xCA, CHR 0xCB, CHR 0xCC, CHR 0xCD, CHR 0xCE, CHR 0xCF,
      CHR 0xD0, CHR 0xD1, CHR 0xD2, CHR 0xD3, CHR 0xD4, CHR 0xD5, CHR 0xD6,
      CHR 0xD8, CHR 0xD9, CHR 0xDA, CHR 0xDB, CHR 0xDC, CHR 0xDD, CHR 0xDE]"

definition lower_letters :: string where
  "lower_letters =
     ''abcdefghijklmnopqrstuvwxyz'' @
     [CHR 0xE0, CHR 0xE1, CHR 0xE2, CHR 0xE3, CHR 0xE4, CHR 0xE5, CHR 0xE6, CHR 0xE7,
      CHR 0xE8, CHR 0xE9, CHR 0xEA, CHR 0xEB, CHR 0xEC, CHR 0xED, CHR 0xEE, CHR 0xEF,
      CHR 0xF0, CHR 0xF1, CHR 0xF2, CHR 0xF3, CHR 0xF4, CHR 0xF5, CHR 0xF6,
      CHR 0xF8, CHR 0xF9, CHR 0xFA, CHR 0xFB, CHR 0xFC, CHR 0xFD, CHR 0xFE]"

definition lower_char :: "char \<Rightarrow> char" where
  "lower_char c =
     (case map_of (zip upper_letters lower_letters) c of
        None \<Rightarrow> c
      | Some l \<Rightarrow> l)"

definition lower :: "string \<Rightarrow> string" where
  "lower s = map lower_char s"

text \<open>
  The code points below 256 that \<open>str.isspace\<close> accepts and \<open>str.strip\<close> removes: 9 to
  13, 28 to 32, the next-line control 0x85 and the no-break space 0xA0.
\<close>

definition is_space :: "char \<Rightarrow> bool" where
  "is_space c =
     (c \<in> set [CHR 0x09, CHR 0x0A, CHR 0x0B, CHR 0x0C, CHR 0x0D,
                CHR 0x1C, CHR 0x1D, CHR 0x1E, CHR 0x1F, CHR 0x20,
                CHR 0x85, CHR 0xA0])"

definition strip :: "string \<Rightarrow> string" where
  "strip s = rev (dropWhile is_space (rev (dropWhile is_space s)))"

text \<open>\<open>needle in hay\<close> on strings.\<close>

fun startswith :: "string \<Rightarrow> string \<Rightarrow> bool" where
  "startswith hay [] = True"
| "startswith [] (c # cs) = False"
| "startswith (h # hs) (c # cs) = (h = c \<and> startswith hs cs)"

fun str_in :: "string \<Rightarrow> string \<Rightarrow> bool" where
  "str_in needle [] = (needle = [])"
| "str_in needle (h # hs) = (startswith (h # hs) needle \<or> str_in needle hs)"

definition endswith :: "string \<Rightarrow> string \<Rightarrow> bool" where
  "endswith s suf = startswith (rev s) (rev suf)"

text \<open>\<open>s.split(sep)\<close> for a one-character separator: the result is never empty.\<close>

fun split :: "char \<Rightarrow> string \<Rightarrow> string list" where
  "split sep [] = [[]]"
| "split sep (c # cs) =
     (if c = sep then [] # split sep cs
      else (case split sep cs of
              [] \<Rightarrow> [[c]]
            | l # ls \<Rightarrow> (c # l) # ls))"

definition newline :: char where
  "newline = CHR 0x0A"

text \<open>
  \<open>str.isdigit\<close>: a non-empty string of digits. Below 256 the digits are 0 to 9 and the
  superscripts two, three and one (0xB2, 0xB3, 0xB9).
\<close>

definition digits :: string where
  "digits = ''0123456789'' @ [CHR 0xB2, CHR 0xB3, CHR 0xB9]"

definition isdigit :: "string \<Rightarrow> bool" where
  "isdigit s = (s \<noteq> [] \<and> list_all (\<lambda>c. c \<in> set digits) s)"

text \<open>\<open>str(n)\<close> for a non-negative integer.\<close>

definition digit_char :: "nat \<Rightarrow> char" where
  "digit_char d = ''0123456789'' ! d"

fun str_nat :: "nat \<Rightarrow> string" where
  "str_nat n =
     (if n < 10 then [digit_char n]
      else str_nat (n div 10) @ [digit_char (n mod 10)])"

declare str_nat.simps [simp del]

section \<open>The searcher object\<close>

record college =
  sr_no :: string
  name :: string
  code :: string

text \<open>
  \<open>colleges_data\<close> is a Python dict: an association list in insertion order, written
  with \<^const>\<open>AList.update\<close> (an existing key keeps its place, a new key goes last) and
  read with \<^const>\<open>map_of\<close>.
\<close>

record searcher =
  base_url :: string
  index_url :: string
  pdf_dir :: string
  colleges_data :: "(string \<times> college) list"

definition init :: searcher where
  "init = \<lparr> base_url = ''https://dse2025.mahacet.org.in/dse25/'',
            index_url = ''https://dse2025.mahacet.org.in/dse25/index.php/hp_controller/instwiseallotment'',
            pdf_dir = ''dse_pdfs'',
            colleges_data = [] \<rparr>"

section \<open>The world outside the program\<close>

text \<open>
  The file system holds regular files (path and bytes, in the order a directory listing
  gives them) and directories; \<open>requests\<close> logs every URL fetched. Paths are POSIX
  paths, compared as the strings the program builds.
\<close>

record world =
  files :: "(string \<times> string) list"
  dirs :: "string list"
  requests :: "string list"

record response =
  status_code :: nat
  reason :: string
  url :: string
  content_type :: "string option"
  content :: string

text \<open>
  \<open>session.get\<close> either raises a \<open>RequestException\<close> (carrying \<open>str(e)\<close>) or returns
  a response.
\<close>

datatype get_result = RequestException string | Response response

text \<open>
  What opening a file's bytes with the PDF library gives: \<open>Inl msg\<close> when building the
  reader or listing the pages raises (\<open>msg\<close> is \<open>str(e)\<close>), otherwise the pages in
  document order, each either raising in \<open>extract_text\<close> (\<open>Inl msg\<close>) or giving its text.
\<close>

type_synonym pdf = "string + (string + string) list"

text \<open>
  The libraries and the network are parameters: the answer to a GET of a URL, the PDF
  reader on a file's bytes, and the text of the \<open>OSError\<close> raised for a path.
\<close>

record env =
  session_get :: "string \<Rightarrow> get_result"
  PdfReader :: "string \<Rightarrow> pdf"
  os_error :: "string \<Rightarrow> string"

definition dirname :: "string \<Rightarrow> string" where
  "dirname p =
     (let head = rev (dropWhile (\<lambda>c. c \<noteq> CHR ''/'') (rev p))
      in if head \<noteq> [] \<and> \<not> list_all (\<lambda>c. c = CHR ''/'') head
         then rev (dropWhile (\<lambda>c. c = CHR ''/'') (rev head))
         else head)"

definition basename :: "string \<Rightarrow> string" where
  "basename p = rev (takeWhile (\<lambda>c. c \<noteq> CHR ''/'') (rev p))"

definition os_path_join :: "string \<Rightarrow> string \<Rightarrow> string" where
  "os_path_join a b =
     (if startswith b ''/'' then b
      else if a = [] \<or> endswith a ''/'' then a @ b
      else a @ ''/'' @ b)"

definition os_path_exists :: "world \<Rightarrow> string \<Rightarrow> bool" where
  "os_path_exists w p = (p \<in> set (map fst (files w)) \<or> p \<in> set (dirs w))"

text \<open>\<open>os.listdir\<close>: the names in a directory, or the \<open>OSError\<close> when it is not one.\<close>

definition os_listdir :: "env \<Rightarrow> world \<Rightarrow> string \<Rightarrow> string + string list" where
  "os_listdir E w d =
     (if d \<in> set (dirs w)
      then Inr (map basename (filter (\<lambda>p. dirname p = d) (map fst (files w) @ dirs w)))
      else Inl (os_error E d))"

text \<open>\<open>open(p, 'wb')\<close> and \<open>write\<close>: the directory of the path must exist.\<close>

definition write_file :: "env \<Rightarrow> world \<Rightarrow> string \<Rightarrow> string \<Rightarrow> string + world" where
  "write_file E w p bytes =
     (if dirname p \<in> set (dirs w) \<and> p \<notin> set (dirs w)
      then Inr (w\<lparr>files := AList.update p bytes (files w)\<rparr>)
      else Inl (os_error E p))"

text \<open>\<open>open(p, 'rb')\<close> followed by the PDF reader.\<close>

definition open_pdf :: "env \<Rightarrow> world \<Rightarrow> string \<Rightarrow> pdf" where
  "open_pdf E w p =
     (case map_of (files w) p of
        None \<Rightarrow> Inl (os_error E p)
      | Some bytes \<Rightarrow> PdfReader E bytes)"

section \<open>Catalog builder\<close>

datatype fetch_failure = NetworkError string | HTTPStatus nat | ParseFailure string

text \<open>
  One iteration of the loop over \<open>rows[1:]\<close>; \<open>cells\<close> are the stripped texts of the
  row's \<open>td\<close> elements.
\<close>

definition scrape_row :: "string list \<Rightarrow> (string \<times> college) list \<Rightarrow> (string \<times> college) list" where
  "scrape_row cells cd =
     (if length cells \<ge> 3 then
        (let sr = cells ! 0; institute_code = cells ! 1; institute_name = cells ! 2
         in if \<not> isdigit institute_code then cd
            else AList.update institute_code
                   \<lparr> sr_no = sr, name = institute_name, code = institute_code \<rparr> cd)
      else cd)"

definition code_ranges :: "(nat \<times> nat) list" where
  "code_ranges =
     [(1002, 1300), (2008, 2800), (3012, 3600), (4004, 4800),
      (5003, 5600), (6004, 7000), (14005, 14006), (16006, 16200)]"

definition fallback_entry :: "nat \<Rightarrow> (string \<times> college) list \<Rightarrow> (string \<times> college) list" where
  "fallback_entry c cd =
     AList.update (str_nat c)
       \<lparr> sr_no = [], name = ''Institute '' @ str_nat c, code = str_nat c \<rparr> cd"

definition generate_fallback_codes :: "searcher \<Rightarrow> searcher" where
  "generate_fallback_codes S =
     S\<lparr>colleges_data :=
         fold (\<lambda>(lo, hi) cd. fold fallback_entry [lo..<hi] cd) code_ranges (colleges_data S)\<rparr>"

text \<open>
  \<open>page\<close> is what fetching and parsing the index page gives: a failure (an exception
  of the fetch, of the status check or of the parser, all raised before the first row is
  read), or the \<open>tr\<close> rows of the document in order, each as its cells.
\<close>

definition scrape_college_data :: "searcher \<Rightarrow> fetch_failure + string list list \<Rightarrow> searcher \<times> bool" where
  "scrape_college_data S page =
     (case page of
        Inr rows \<Rightarrow> (S\<lparr>colleges_data := fold scrape_row (drop 1 rows) (colleges_data S)\<rparr>, True)
      | Inl e \<Rightarrow> (generate_fallback_codes S, False))"

section \<open>Download manager\<close>

text \<open>\<open>response.raise_for_status()\<close>: the message of the \<open>HTTPError\<close>, if one is raised.\<close>

definition raise_for_status :: "response \<Rightarrow> string option" where
  "raise_for_status r =
     (if 400 \<le> status_code r \<and> status_code r < 500
      then Some (str_nat (status_code r) @ '' Client Error: '' @ reason r @ '' for url: '' @ url r)
      else if 500 \<le> status_code r \<and> status_code r < 600
      then Some (str_nat (status_code r) @ '' Server Error: '' @ reason r @ '' for url: '' @ url r)
      else None)"

text \<open>
  The result is \<open>Inr (path, success, message)\<close>, or \<open>Inl msg\<close> for an exception that
  \<open>download_pdf\<close> does not catch (the \<open>OSError\<close> of a failed write).
\<close>

type_synonym outcome = "string + (string \<times> bool \<times> string)"

definition download_pdf :: "searcher \<Rightarrow> env \<Rightarrow> world \<Rightarrow> string \<Rightarrow> string \<Rightarrow> world \<times> outcome" where
  "download_pdf S E w institute_code cap_round =
     (let pdf_url = base_url S @ ''admin/allotment/'' @ cap_round @ ''/'' @ institute_code @ ''_4.pdf'';
          local_path = pdf_dir S @ ''/'' @ cap_round @ ''/'' @ institute_code @ ''_4.pdf''
      in if os_path_exists w local_path then (w, Inr (local_path, True, ''Already exists''))
         else
           (let w1 = w\<lparr>requests := requests w @ [pdf_url]\<rparr>
            in case session_get E pdf_url of
                 RequestException e \<Rightarrow> (w1, Inr (local_path, False, ''Error: '' @ take 50 e))
               | Response r \<Rightarrow>
                   (case raise_for_status r of
                      Some e \<Rightarrow> (w1, Inr (local_path, False, ''Error: '' @ take 50 e))
                    | None \<Rightarrow>
                        if str_in ''application/pdf''
                             (case content_type r of None \<Rightarrow> [] | Some ct \<Rightarrow> ct)
                        then (case write_file E w1 local_path (content r) of
                                Inl e \<Rightarrow> (w1, Inl e)
                              | Inr w2 \<Rightarrow> (w2, Inr (local_path, True, ''Downloaded'')))
                        else (w1, Inr (local_path, False, ''Not a PDF'')))))"

definition download_tasks :: "(string \<times> college) list \<Rightarrow> (string \<times> string) list" where
  "download_tasks cd =
     concat (map (\<lambda>institute_code. [(institute_code, ''cap1''), (institute_code, ''cap2'')])
               (map fst cd))"

text \<open>
  The tallies \<open>(successful_downloads, already_exists, failed_downloads)\<close> after one
  completed future.
\<close>

fun count_result :: "outcome \<Rightarrow> nat \<times> nat \<times> nat \<Rightarrow> nat \<times> nat \<times> nat" where
  "count_result (Inl e) (s, a, f) = (s, a, f + 1)"
| "count_result (Inr (path, success, message)) (s, a, f) =
     (if success \<and> str_in ''Already exists'' message then (s, a + 1, f)
      else if success then (s + 1, a, f)
      else (s, a, f + 1))"

definition count_results :: "outcome list \<Rightarrow> nat \<times> nat \<times> nat" where
  "count_results outs = fold count_result outs (0, 0, 0)"

text \<open>
  The pool runs the tasks concurrently and hands them back as they complete. The model
  runs them one after the other in submission order.
\<close>

fun run_tasks :: "searcher \<Rightarrow> env \<Rightarrow> world \<Rightarrow> (string \<times> string) list \<Rightarrow> world \<times> outcome list" where
  "run_tasks S E w [] = (w, [])"
| "run_tasks S E w ((c, cap) # ts) =
     (let (w1, out) = download_pdf S E w c cap;
          (w2, outs) = run_tasks S E w1 ts
      in (w2, out # outs))"

definition download_all_pdfs :: "searcher \<Rightarrow> env \<Rightarrow> world \<Rightarrow> world \<times> (nat \<times> nat \<times> nat)" where
  "download_all_pdfs S E w =
     (let (w1, outs) = run_tasks S E w (download_tasks (colleges_data S))
      in (w1, count_results outs))"

section \<open>Text extraction and matching\<close>

fun extract_pages :: "(string + string) list \<Rightarrow> string \<Rightarrow> string + string" where
  "extract_pages [] full_text = Inr full_text"
| "extract_pages (Inl e # ps) full_text = Inl e"
| "extract_pages (Inr t # ps) full_text = extract_pages ps (full_text @ t @ [newline])"

definition search_pdf :: "env \<Rightarrow> world \<Rightarrow> string \<Rightarrow> string \<Rightarrow> bool \<times> string list" where
  "search_pdf E w pdf_path search_name =
     (case open_pdf E w pdf_path of
        Inl e \<Rightarrow> (False, [''Error reading PDF: '' @ e])
      | Inr pages \<Rightarrow>
          (case extract_pages pages [] of
             Inl e \<Rightarrow> (False, [''Error reading PDF: '' @ e])
           | Inr full_text \<Rightarrow>
               if str_in (lower search_name) (lower full_text) then
                 (let lines = split newline full_text;
                      matching_lines =
                        map strip
                          (filter (\<lambda>line. str_in (lower search_name) (lower line) \<and> strip line \<noteq> [])
                             lines)
                  in (True, take 3 matching_lines))
               else (False, [])))"

section \<open>Search orchestrator\<close>

text \<open>A result entry; the source's key for the matching lines is the field \<open>context_lines\<close>.\<close>

record result =
  institute_code :: string
  college_name :: string
  pdf_file :: string
  context_lines :: "string list"

text \<open>The loop over \<open>pdf_files\<close> of one round, appending to that round's results.\<close>

fun search_files ::
  "searcher \<Rightarrow> env \<Rightarrow> world \<Rightarrow> string \<Rightarrow> string \<Rightarrow> string list \<Rightarrow> result list \<Rightarrow> result list" where
  "search_files S E w cap_dir search_name [] results = results"
| "search_files S E w cap_dir search_name (f # fs) results =
     (let pdf_path = os_path_join cap_dir f;
          ic = hd (split CHR ''_'' f);
          (found, ctx) = search_pdf E w pdf_path search_name
      in search_files S E w cap_dir search_name fs
           (if found then
              results @
                [\<lparr> institute_code = ic,
                   college_name =
                     (case map_of (colleges_data S) ic of
                        None \<Rightarrow> ''Institute '' @ ic
                      | Some c \<Rightarrow> name c),
                   pdf_file = f,
                   context_lines = ctx \<rparr>]
            else results))"

text \<open>
  The loop over the rounds: \<open>Inl msg\<close> when \<open>os.listdir\<close> raises (the path exists and is
  not a directory), otherwise the results by round.
\<close>

fun search_rounds ::
  "searcher \<Rightarrow> env \<Rightarrow> world \<Rightarrow> string \<Rightarrow> string list \<Rightarrow> string + (string \<times> result list) list" where
  "search_rounds S E w search_name [] = Inr []"
| "search_rounds S E w search_name (cap_round # rs) =
     (let cap_dir = pdf_dir S @ ''/'' @ cap_round
      in if \<not> os_path_exists w cap_dir then
           (case search_rounds S E w search_name rs of
              Inl e \<Rightarrow> Inl e
            | Inr rest \<Rightarrow> Inr ((cap_round, []) # rest))
         else
           (case os_listdir E w cap_dir of
              Inl e \<Rightarrow> Inl e
            | Inr names \<Rightarrow>
                (let pdf_files = filter (\<lambda>f. endswith f ''.pdf'') names;
                     found = search_files S E w cap_dir search_name pdf_files []
                 in case search_rounds S E w search_name rs of
                      Inl e \<Rightarrow> Inl e
                    | Inr rest \<Rightarrow> Inr ((cap_round, found) # rest))))"

definition search_all_pdfs ::
  "searcher \<Rightarrow> env \<Rightarrow> world \<Rightarrow> string \<Rightarrow> string + (string \<times> result list) list" where
  "search_all_pdfs S E w search_name = search_rounds S E w search_name [''cap1'', ''cap2'']"

section \<open>Interactive driver\<close>

text \<open>
  \<open>inputs\<close> are the lines \<open>input()\<close> will return, in order; when they run out,
  \<open>input()\<close> raises \<open>EOFError\<close>. A run ends by returning or by an exception that leaves
  \<open>run\<close>.
\<close>

datatype status = Returned | Raised string

text \<open>The search loop: the searches made so far, each with its results.\<close>

fun search_loop ::
  "searcher \<Rightarrow> env \<Rightarrow> world \<Rightarrow> string list \<Rightarrow> (string \<times> (string \<times> result list) list) list
     \<Rightarrow> (string \<times> (string \<times> result list) list) list \<times> status" where
  "search_loop S E w [] done = (done, Raised ''EOFError'')"
| "search_loop S E w (line # rest) done =
     (let search_name = strip line
      in if search_name = [] \<or> lower search_name = ''quit'' then (done, Returned)
         else if length search_name < 3 then search_loop S E w rest done
         else
           (case search_all_pdfs S E w search_name of
              Inl e \<Rightarrow> (done, Raised e)
            | Inr results \<Rightarrow>
                (case rest of
                   [] \<Rightarrow> (done @ [(search_name, results)], Raised ''EOFError'')
                 | answer # rest' \<Rightarrow>
                     if lower (strip answer) = ''n''
                     then (done @ [(search_name, results)], Returned)
                     else search_loop S E w rest' (done @ [(search_name, results)]))))"

record run_result =
  searcher_after :: searcher
  world_after :: world
  download_summary :: "(nat \<times> nat \<times> nat) option"
  searches :: "(string \<times> (string \<times> result list) list) list"
  ended :: status

text \<open>
  \<open>download_summary\<close> is \<open>None\<close> when \<open>download_all_pdfs\<close> was not called, otherwise
  the three tallies it printed.
\<close>

definition run ::
  "searcher \<Rightarrow> fetch_failure + string list list \<Rightarrow> env \<Rightarrow> world \<Rightarrow> string list \<Rightarrow> run_result" where
  "run S page E w inputs =
     (let (S1, ok) = scrape_college_data S page
      in case inputs of
           [] \<Rightarrow> \<lparr> searcher_after = S1, world_after = w, download_summary = None,
                   searches = [], ended = Raised ''EOFError'' \<rparr>
         | answer # rest \<Rightarrow>
             (let download_choice = lower (strip answer);
                  (w1, summary) =
                    (if download_choice \<noteq> ''n''
                     then (let (w', t) = download_all_pdfs S1 E w in (w', Some t))
                     else (w, None));
                  (found, st) = search_loop S1 E w1 rest []
              in \<lparr> searcher_after = S1, world_after = w1, download_summary = summary,
                    searches = found, ended = st \<rparr>))"

section \<open>Example inputs\<close>

definition example_env :: env where
  "example_env =
     \<lparr> session_get = (\<lambda>u. RequestException ''Connection refused''),
       PdfReader =
         (\<lambda>bytes.
            if bytes = ''roll'' then Inr [Inr (''John Doe'' @ [newline] @ ''Jane Roe'')]
            else if bytes = ''family'' then
              Inr [Inr (''Doe A'' @ [newline] @ ''  Doe B '' @ [newline] @ ''Roe'' @ [newline] @ ''Doe C''),
                   Inr (''DOE D'' @ [newline] @ ''doe e'')]
            else if bytes = ''accent'' then Inr [Inr (''jos'' @ [CHR 0xE9] @ '' garcia'' @ [CHR 0xA0])]
            else if bytes = ''halves'' then Inr [Inr ''John'', Inr ''Doe'']
            else if bytes = ''torn'' then Inr [Inr ''John Doe'', Inl ''page tree is damaged'', Inr ''Jane Roe'']
            else Inl ''EOF marker not found''),
       os_error = (\<lambda>p. ''[Errno 2] No such file or directory: '' @ p) \<rparr>"

definition example_world :: "(string \<times> string) list \<Rightarrow> world" where
  "example_world fs =
     \<lparr> files = fs, dirs = [''dse_pdfs'', ''dse_pdfs/cap1'', ''dse_pdfs/cap2''], requests = [] \<rparr>"

definition rows0 :: "string list list" where
  "rows0 = [[''9'', ''1001'', ''Header''],
            [''1'', ''1002'', ''First College''],
            [''2'', ''10a2'', ''Not a code''],
            [''3'', ''1003''],
            [''4'', ''1002'', ''Second College''],
            [''5'', ''10'' @ [CHR 0xB2], ''Superscript College'']]"

definition page0 :: "fetch_failure + string list list" where
  "page0 = Inr [[''Sr'', ''Code'', ''Name''], [''1'', ''1002'', ''Test College'']]"

definition html_env :: env where
  "html_env =
     example_env\<lparr>session_get :=
       (\<lambda>u. Response \<lparr> status_code = 200, reason = ''OK'', url = u,
                         content_type = Some ''text/html'', content = ''<html></html>'' \<rparr>)\<rparr>"

definition example_outcome :: "string \<times> string \<Rightarrow> outcome" where
  "example_outcome task =
     (if snd task = ''cap1'' then Inr (''dse_pdfs/cap1/'' @ fst task @ ''_4.pdf'', True, ''Already exists'')
      else Inr (''dse_pdfs/cap2/'' @ fst task @ ''_4.pdf'', False, ''Not a PDF''))"

section \<open>Facts about the string operations\<close>

lemmas lower_eval = lower_def lower_char_def upper_letters_def lower_letters_def

lemmas isdigit_eval = isdigit_def digits_def

lemma startswith_iff_prefix: "startswith hay n \<longleftrightarrow> prefix n hay"
  by (induction hay n rule: startswith.induct) auto

lemma str_in_iff_sublist: "str_in n hay \<longleftrightarrow> sublist n hay"
  by (induction hay) (simp_all add: startswith_iff_prefix sublist_Cons_right)

lemma endswith_iff_suffix: "endswith s suf \<longleftrightarrow> suffix suf s"
  by (simp add: endswith_def startswith_iff_prefix suffix_to_prefix)

lemma split_not_Nil: "split sep s \<noteq> []"
  by (induction s) (simp_all split: list.splits)

lemma hd_split: "hd (split sep s) = takeWhile (\<lambda>c. c \<noteq> sep) s"
  by (induction s) (auto split: list.splits simp: split_not_Nil)

lemma str_nat_small: "n < 10 \<Longrightarrow> str_nat n = [digit_char n]"
  by (simp add: str_nat.simps)

lemma str_nat_big: "\<not> n < 10 \<Longrightarrow> str_nat n = str_nat (n div 10) @ [digit_char (n mod 10)]"
  by (subst str_nat.simps) simp

lemma lower_char_cases:
  "lower_char c = c \<or> (c \<in> set upper_letters \<and> lower_char c \<in> set lower_letters)"
proof (cases "map_of (zip upper_letters lower_letters) c")
  case None
  then show ?thesis by (simp add: lower_char_def)
next
  case (Some l)
  then have "(c, l) \<in> set (zip upper_letters lower_letters)" by (rule map_of_SomeD)
  then have "c \<in> set upper_letters" "l \<in> set lower_letters"
    by (auto dest: set_zip_leftD set_zip_rightD)
  with Some show ?thesis by (simp add: lower_char_def)
qed

lemma letters_not_space:
  "c \<in> set upper_letters \<union> set lower_letters \<Longrightarrow> \<not> is_space c"
  by (auto simp: upper_letters_def lower_letters_def is_space_def)

lemma lower_letters_fixed: "c \<in> set lower_letters \<Longrightarrow> lower_char c = c"
proof -
  assume c: "c \<in> set lower_letters"
  have "set lower_letters \<inter> set upper_letters = {}"
    by (simp add: upper_letters_def lower_letters_def)
  with c have "c \<notin> set upper_letters" by blast
  then have "c \<notin> fst ` set (zip upper_letters lower_letters)"
    by (auto dest: set_zip_leftD)
  then have "map_of (zip upper_letters lower_letters) c = None"
    by (simp add: map_of_eq_None_iff)
  then show ?thesis by (simp add: lower_char_def)
qed

lemma is_space_lower_char: "is_space (lower_char c) = is_space c"
  using lower_char_cases [of c] letters_not_space [of c] letters_not_space [of "lower_char c"]
  by auto

lemma lower_char_idem: "lower_char (lower_char c) = lower_char c"
  using lower_char_cases [of c] lower_letters_fixed [of "lower_char c"] by auto

lemma lower_idem: "lower (lower s) = lower s"
  by (simp add: lower_def lower_char_idem)

lemma strip_Nil_iff: "strip l = [] \<longleftrightarrow> (\<forall>c\<in>set l. is_space c)"
proof
  assume "strip l = []"
  then have all: "\<forall>x\<in>set (dropWhile is_space l). is_space x"
    by (simp add: strip_def dropWhile_eq_Nil_conv)
  have "dropWhile is_space l = []"
  proof (rule ccontr)
    assume ne: "dropWhile is_space l \<noteq> []"
    then have "\<not> is_space (hd (dropWhile is_space l))" by (rule hd_dropWhile)
    moreover have "hd (dropWhile is_space l) \<in> set (dropWhile is_space l)" using ne by simp
    ultimately show False using all by blast
  qed
  then show "\<forall>c\<in>set l. is_space c" by (simp add: dropWhile_eq_Nil_conv)
next
  assume "\<forall>c\<in>set l. is_space c"
  then have h: "dropWhile is_space l = []" by (simp add: dropWhile_eq_Nil_conv)
  show "strip l = []" unfolding strip_def h by simp
qed

text \<open>A trimmed string that is not empty has a character that is not whitespace.\<close>

lemma stripped_not_blank:
  assumes "strip line \<noteq> []"
  shows "\<exists>c\<in>set (strip line). \<not> is_space c"
proof -
  let ?ys = "dropWhile is_space (rev (dropWhile is_space line))"
  have ne: "?ys \<noteq> []" using assms by (simp add: strip_def)
  then have "\<not> is_space (hd ?ys)" by (rule hd_dropWhile)
  moreover have "hd ?ys \<in> set (strip line)" using ne by (simp add: strip_def)
  ultimately show ?thesis by blast
qed

lemma containing_line_not_blank:
  assumes "sublist (lower s) (lower l)" and "c \<in> set s" and "\<not> is_space c"
  shows "strip l \<noteq> []"
proof -
  have "set (lower s) \<subseteq> set (lower l)" using assms(1) by (rule set_mono_sublist)
  then have "lower_char c \<in> lower_char ` set l" using assms(2) by (auto simp: lower_def)
  then obtain d where d: "d \<in> set l" "lower_char d = lower_char c" by auto
  have "\<not> is_space d" using d(2) assms(3) is_space_lower_char by metis
  then show ?thesis using d(1) by (auto simp: strip_Nil_iff)
qed

lemma extract_pages_ok:
  "extract_pages (map Inr texts) acc = Inr (acc @ concat (map (\<lambda>t. t @ [newline]) texts))"
  by (induction texts arbitrary: acc) simp_all


text \<open>The three operations on code points above 127.\<close>

lemma latin1_examples:
  "lower (''JOS'' @ [CHR 0xC9]) = ''jos'' @ [CHR 0xE9]"
  "lower [CHR 0xD7, CHR 0xDF] = [CHR 0xD7, CHR 0xDF]"
  "strip ([CHR 0xA0] @ ''n'' @ [CHR 0x85]) = ''n''"
  "isdigit (''10'' @ [CHR 0xB2])"
  "\<not> isdigit (''10'' @ [CHR 0xBD])"
  by (simp_all add: lower_eval strip_def is_space_def isdigit_eval)

section \<open>The matcher\<close>

lemma sublist_lower:
  assumes "sublist a b"
  shows "sublist (lower a) (lower b)"
proof -
  from assms obtain before after where "b = before @ a @ after"
    by (auto simp: sublist_def)
  then have "lower b = lower before @ lower a @ lower after"
    by (simp add: lower_def)
  then show ?thesis unfolding sublist_def by blast
qed

lemma split_line_sublist: "l \<in> set (split sep t) \<Longrightarrow> sublist l t"
proof (induction t arbitrary: l)
  case Nil
  then show ?case by simp
next
  case (Cons c cs)
  show ?case
  proof (cases "c = sep")
    case True
    with Cons.prems have "l = [] \<or> l \<in> set (split sep cs)" by simp
    then show ?thesis using Cons.IH by (auto simp: sublist_Cons_right)
  next
    case False
    obtain l0 ls where sp: "split sep cs = l0 # ls"
      using split_not_Nil [of sep cs] by (cases "split sep cs") auto
    from False sp Cons.prems have "l = c # l0 \<or> l \<in> set ls" by simp
    then show ?thesis
    proof
      assume l: "l = c # l0"
      have "l0 = takeWhile (\<lambda>x. x \<noteq> sep) cs" using hd_split [of sep cs] sp by simp
      then have "prefix l0 cs" by (simp add: takeWhile_is_prefix)
      then have "prefix (c # l0) (c # cs)" by simp
      then show ?thesis unfolding l by (rule prefix_imp_sublist)
    next
      assume "l \<in> set ls"
      then have "l \<in> set (split sep cs)" using sp by simp
      then have "sublist l cs" by (rule Cons.IH)
      then show ?thesis by (simp add: sublist_Cons_right)
    qed
  qed
qed

lemma search_pdf_text:
  assumes "map_of (files w) p = Some bytes" and "PdfReader E bytes = Inr (map Inr texts)"
  shows "search_pdf E w p s =
     (let T = concat (map (\<lambda>t. t @ [newline]) texts)
      in if str_in (lower s) (lower T)
         then (True, take 3 (map strip
                 (filter (\<lambda>l. str_in (lower s) (lower l) \<and> strip l \<noteq> []) (split newline T))))
         else (False, []))"
  using assms by (simp add: search_pdf_def open_pdf_def extract_pages_ok Let_def)

text \<open>
  C1. When the file opens and every page gives its text, with \<open>T\<close> the page texts each
  followed by a newline, and for every search string with a character that is not
  whitespace (the driver passes only trimmed strings of length 3 or more):
  \<open>search_pdf\<close> reports found exactly when the case-folded search string (\<open>str.lower\<close>)
  is a substring of the case-folded \<open>T\<close>; when found, the lines returned are the first
  three (or fewer) lines of \<open>T\<close>, in order and trimmed, whose case-folded form contains
  the case-folded search string. So one containing line gives found and that line
  trimmed, and five containing lines give found and the first three of them.
\<close>

theorem search_pdf_found_and_context:
  assumes "map_of (files w) p = Some bytes" and "PdfReader E bytes = Inr (map Inr texts)"
    and "T = concat (map (\<lambda>t. t @ [newline]) texts)"
    and "hits = filter (\<lambda>l. sublist (lower s) (lower l)) (split newline T)"
    and "\<exists>c\<in>set s. \<not> is_space c"
  shows "fst (search_pdf E w p s) = sublist (lower s) (lower T) \<and>
         (sublist (lower s) (lower T) \<longrightarrow>
            snd (search_pdf E w p s) = map strip (take 3 hits)) \<and>
         (\<forall>l. hits = [l] \<longrightarrow> search_pdf E w p s = (True, [strip l])) \<and>
         (length hits = 5 \<longrightarrow>
            search_pdf E w p s = (True, map strip (take 3 hits)) \<and>
            length (snd (search_pdf E w p s)) = 3)"
proof -
  have eq: "filter (\<lambda>l. sublist (lower s) (lower l) \<and> strip l \<noteq> []) (split newline T) = hits"
    unfolding assms(4) using assms(5)
    by (intro filter_cong refl) (auto dest: containing_line_not_blank)
  have r: "search_pdf E w p s =
     (if sublist (lower s) (lower T) then (True, map strip (take 3 hits)) else (False, []))"
    using search_pdf_text [OF assms(1,2), of s] assms(3) eq
    by (simp add: Let_def str_in_iff_sublist take_map)
  have found: "sublist (lower s) (lower T)" if "hits \<noteq> []"
  proof -
    from that obtain l where "l \<in> set hits" by (cases hits) auto
    then have l: "l \<in> set (split newline T)" "sublist (lower s) (lower l)"
      by (simp_all add: assms(4))
    from l(1) have "sublist (lower l) (lower T)"
      by (intro sublist_lower split_line_sublist)
    with l(2) show ?thesis by (rule sublist_order.order.trans)
  qed
  have one: "search_pdf E w p s = (True, [strip l])" if "hits = [l]" for l
    using r found that by simp
  have five: "search_pdf E w p s = (True, map strip (take 3 hits)) \<and>
              length (snd (search_pdf E w p s)) = 3" if "length hits = 5"
  proof -
    from that have "hits \<noteq> []" by auto
    with r found that show ?thesis by simp
  qed
  show ?thesis using r one five by simp
qed

theorem search_pdf_found_and_context_witness:
  "search_pdf example_env (example_world [(''dse_pdfs/cap1/1002_4.pdf'', ''family'')])
     ''dse_pdfs/cap1/1002_4.pdf'' ''doe'' = (True, [''Doe A'', ''Doe B'', ''Doe C'']) \<and>
   search_pdf example_env (example_world [(''dse_pdfs/cap1/1002_4.pdf'', ''accent'')])
     ''dse_pdfs/cap1/1002_4.pdf'' (''JOS'' @ [CHR 0xC9]) = (True, [''jos'' @ [CHR 0xE9] @ '' garcia''])"
proof -
  let ?p = "''dse_pdfs/cap1/1002_4.pdf''"
  let ?w = "example_world [(?p, ''family'')]"
  let ?texts = "[''Doe A'' @ [newline] @ ''  Doe B '' @ [newline] @ ''Roe'' @ [newline] @ ''Doe C'',
                 ''DOE D'' @ [newline] @ ''doe e'']"
  let ?T = "concat (map (\<lambda>t. t @ [newline]) ?texts)"
  let ?hits = "[''Doe A'', ''  Doe B '', ''Doe C'', ''DOE D'', ''doe e'']"
  have a: "map_of (files ?w) ?p = Some ''family''" by (simp add: example_world_def)
  have b: "PdfReader example_env ''family'' = Inr (map Inr ?texts)"
    by (simp add: example_env_def)
  have h': "?hits = filter (\<lambda>l. str_in (lower ''doe'') (lower l)) (split newline ?T)"
    by (simp add: lower_eval newline_def)
  have h: "?hits = filter (\<lambda>l. sublist (lower ''doe'') (lower l)) (split newline ?T)"
    using h' by (simp only: str_in_iff_sublist)
  have nb: "\<exists>c\<in>set ''doe''. \<not> is_space c" by (simp add: is_space_def)
  have five: "length ?hits = 5" by simp
  have st: "map strip (take 3 ?hits) = [''Doe A'', ''Doe B'', ''Doe C'']"
    by (simp add: strip_def is_space_def)
  note r = search_pdf_found_and_context [OF a b refl h nb]
  have first: "search_pdf example_env ?w ?p ''doe'' = (True, [''Doe A'', ''Doe B'', ''Doe C''])"
    using r [THEN conjunct2, THEN conjunct2, THEN conjunct2, THEN mp, OF five, THEN conjunct1]
    unfolding st .
  let ?w2 = "example_world [(?p, ''accent'')]"
  let ?s2 = "''JOS'' @ [CHR 0xC9]"
  let ?t2 = "[''jos'' @ [CHR 0xE9] @ '' garcia'' @ [CHR 0xA0]]"
  let ?T2 = "concat (map (\<lambda>t. t @ [newline]) ?t2)"
  let ?line = "''jos'' @ [CHR 0xE9] @ '' garcia'' @ [CHR 0xA0]"
  have a2: "map_of (files ?w2) ?p = Some ''accent''" by (simp add: example_world_def)
  have b2: "PdfReader example_env ''accent'' = Inr (map Inr ?t2)"
    by (simp add: example_env_def)
  have h2': "[?line] = filter (\<lambda>l. str_in (lower ?s2) (lower l)) (split newline ?T2)"
    by (simp add: lower_eval newline_def)
  have h2: "[?line] = filter (\<lambda>l. sublist (lower ?s2) (lower l)) (split newline ?T2)"
    using h2' by (simp only: str_in_iff_sublist)
  have nb2: "\<exists>c\<in>set ?s2. \<not> is_space c" by (simp add: is_space_def)
  have st2: "[strip ?line] = [''jos'' @ [CHR 0xE9] @ '' garcia'']"
    by (simp add: strip_def is_space_def)
  note r2 = search_pdf_found_and_context [OF a2 b2 refl h2 nb2]
  have second: "search_pdf example_env ?w2 ?p ?s2 = (True, [''jos'' @ [CHR 0xE9] @ '' garcia''])"
    using r2 [THEN conjunct2, THEN conjunct2, THEN conjunct1, THEN spec, THEN mp, OF refl]
    unfolding st2 .
  show ?thesis by (rule conjI [OF first second])
qed

text \<open>Every search the driver makes is for a trimmed string of length 3 or more.\<close>

lemma search_loop_names:
  assumes "search_loop S E w inputs acc = (found, st)"
    and "\<forall>(n, r)\<in>set acc. 3 \<le> length n \<and> (\<exists>c\<in>set n. \<not> is_space c)"
  shows "\<forall>(n, r)\<in>set found. 3 \<le> length n \<and> (\<exists>c\<in>set n. \<not> is_space c)"
  using assms
proof (induction S E w inputs acc rule: search_loop.induct)
  case (1 S E w acc)
  then show ?case by simp
next
  case (2 S E w line rest acc)
  let ?n = "strip line"
  show ?case
  proof (cases "?n = [] \<or> lower ?n = ''quit''")
    case True
    with "2.prems" show ?thesis by (simp add: Let_def)
  next
    case stop: False
    show ?thesis
    proof (cases "length ?n < 3")
      case True
      with stop "2.prems" "2.IH"(1) show ?thesis by (simp add: Let_def)
    next
      case long: False
      from stop have "\<exists>c\<in>set ?n. \<not> is_space c" by (intro stripped_not_blank) simp
      with long have good: "3 \<le> length ?n \<and> (\<exists>c\<in>set ?n. \<not> is_space c)" by simp
      show ?thesis
      proof (cases "search_all_pdfs S E w ?n")
        case (Inl e)
        with stop long "2.prems" show ?thesis by (simp add: Let_def)
      next
        case (Inr results)
        have acc': "\<forall>(n, r)\<in>set (acc @ [(?n, results)]). 3 \<le> length n \<and> (\<exists>c\<in>set n. \<not> is_space c)"
          using "2.prems"(2) good by auto
        show ?thesis
        proof (cases rest)
          case Nil
          with stop long Inr "2.prems"(1) acc' show ?thesis by (auto simp: Let_def)
        next
          case (Cons answer rest')
          show ?thesis
          proof (cases "lower (strip answer) = ''n''")
            case True
            with stop long Inr Cons "2.prems"(1) acc' show ?thesis by (auto simp: Let_def)
          next
            case False
            with stop long Inr Cons "2.prems"(1)
            have "search_loop S E w rest' (acc @ [(?n, results)]) = (found, st)"
              by (simp add: Let_def)
            from "2.IH"(2) [OF refl _ _ Inr Cons False this acc'] stop long
            show ?thesis by simp
          qed
        qed
      qed
    qed
  qed
qed

section \<open>The search orchestrator\<close>

lemma search_pdf_lower: "search_pdf E w p (lower s) = search_pdf E w p s"
  unfolding search_pdf_def lower_idem ..

lemma search_files_lower:
  "search_files S E w cap_dir (lower s) fs rs = search_files S E w cap_dir s fs rs"
  by (induction fs arbitrary: rs) (simp_all add: search_pdf_lower)

lemma search_rounds_lower:
  "search_rounds S E w (lower s) rounds = search_rounds S E w s rounds"
  by (induction rounds) (simp_all add: search_files_lower Let_def cong: sum.case_cong)

lemma search_all_pdfs_lower: "search_all_pdfs S E w (lower s) = search_all_pdfs S E w s"
  by (simp only: search_all_pdfs_def search_rounds_lower)

lemma search_files_entries:
  "search_files S E w cap_dir s fs rs =
     rs @ map (\<lambda>f. \<lparr> institute_code = takeWhile (\<lambda>c. c \<noteq> CHR ''_'') f,
                      college_name =
                        (case map_of (colleges_data S) (takeWhile (\<lambda>c. c \<noteq> CHR ''_'') f) of
                           None \<Rightarrow> ''Institute '' @ takeWhile (\<lambda>c. c \<noteq> CHR ''_'') f
                         | Some c \<Rightarrow> name c),
                      pdf_file = f,
                      context_lines = snd (search_pdf E w (os_path_join cap_dir f) s) \<rparr>)
            (filter (\<lambda>f. fst (search_pdf E w (os_path_join cap_dir f) s)) fs)"
  by (induction fs arbitrary: rs) (simp_all add: hd_split Let_def split: prod.splits)



text \<open>What one round contributes, and the two rounds together.\<close>

lemma search_rounds_entries:
  assumes "\<forall>r\<in>set rounds. os_path_exists w (pdf_dir S @ ''/'' @ r) \<longrightarrow>
             os_listdir E w (pdf_dir S @ ''/'' @ r) = Inr (names r)"
  shows "search_rounds S E w s rounds =
     Inr (map (\<lambda>r. (r,
            if os_path_exists w (pdf_dir S @ ''/'' @ r)
            then map (\<lambda>f. \<lparr> institute_code = takeWhile (\<lambda>c. c \<noteq> CHR ''_'') f,
                             college_name =
                               (case map_of (colleges_data S) (takeWhile (\<lambda>c. c \<noteq> CHR ''_'') f) of
                                  None \<Rightarrow> ''Institute '' @ takeWhile (\<lambda>c. c \<noteq> CHR ''_'') f
                                | Some c \<Rightarrow> name c),
                             pdf_file = f,
                             context_lines =
                               snd (search_pdf E w (os_path_join (pdf_dir S @ ''/'' @ r) f) s) \<rparr>)
                   (filter (\<lambda>f. endswith f ''.pdf'' \<and>
                                 fst (search_pdf E w (os_path_join (pdf_dir S @ ''/'' @ r) f) s))
                      (names r))
            else [])) rounds)"
  using assms
proof (induction rounds)
  case Nil
  show ?case by simp
next
  case (Cons r rounds)
  have rest: "\<forall>r\<in>set rounds. os_path_exists w (pdf_dir S @ ''/'' @ r) \<longrightarrow>
                os_listdir E w (pdf_dir S @ ''/'' @ r) = Inr (names r)"
    using Cons.prems by simp
  show ?case
  proof (cases "os_path_exists w (pdf_dir S @ ''/'' @ r)")
    case False
    then show ?thesis using Cons.IH [OF rest] by (simp add: Let_def)
  next
    case True
    then have l: "os_listdir E w (pdf_dir S @ ''/'' @ r) = Inr (names r)"
      using Cons.prems by simp
    show ?thesis using True l Cons.IH [OF rest]
      by (simp add: Let_def search_files_entries conj_commute)
  qed
qed

lemma ex_listdir1: "os_listdir example_env (example_world [(''dse_pdfs/cap1/1002_4.pdf'', ''roll'')]) ''dse_pdfs/cap1'' = Inr [''1002_4.pdf'']"
  by (simp add: os_listdir_def example_world_def dirname_def basename_def)

lemma ex_listdir2: "os_listdir example_env (example_world [(''dse_pdfs/cap1/1002_4.pdf'', ''roll'')]) ''dse_pdfs/cap2'' = Inr []"
  by (simp add: os_listdir_def example_world_def dirname_def basename_def)

lemma ex_search_pdf: "search_pdf example_env (example_world [(''dse_pdfs/cap1/1002_4.pdf'', ''roll'')])
       ''dse_pdfs/cap1/1002_4.pdf'' ''doe'' = (True, [''John Doe''])"
  by (simp add: search_pdf_def open_pdf_def example_env_def example_world_def
      lower_eval newline_def strip_def is_space_def)

lemma ex_search_all:
  "search_all_pdfs (init\<lparr>colleges_data := [(''1002'', \<lparr>sr_no = n, name = ''Test College'', code = ''1002''\<rparr>)]\<rparr>)
     example_env (example_world [(''dse_pdfs/cap1/1002_4.pdf'', ''roll'')]) ''doe'' =
   Inr [(''cap1'', [\<lparr> institute_code = ''1002'', college_name = ''Test College'',
                      pdf_file = ''1002_4.pdf'', context_lines = [''John Doe''] \<rparr>]),
        (''cap2'', [])]"
proof -
  have ex: "os_path_exists (example_world fs) ''dse_pdfs/cap1''" "os_path_exists (example_world fs) ''dse_pdfs/cap2''" for fs
    by (simp_all add: os_path_exists_def example_world_def)
  have j: "os_path_join ''dse_pdfs/cap1'' ''1002_4.pdf'' = ''dse_pdfs/cap1/1002_4.pdf''"
    by (simp add: os_path_join_def endswith_def)
  have pd: "pdf_dir (init\<lparr>colleges_data := cd\<rparr>) = ''dse_pdfs''" for cd by (simp add: init_def)
  have en: "endswith ''1002_4.pdf'' ''.pdf''" by (simp add: endswith_def)
  show ?thesis
    by (simp add: search_all_pdfs_def pd ex ex_listdir1 ex_listdir2 en j ex_search_pdf)
qed

text \<open>
  C2. For each of the rounds cap1 and cap2 whose directory exists, \<open>search_all_pdfs\<close>
  lists under that round one entry per file of the directory listing that ends in
  \<open>.pdf\<close> and on which \<open>search_pdf\<close> reports found, in listing order (none when the
  directory does not exist). The entry's institution code is the part of the file name
  before the first underscore, and its college name is the name the catalog has for that
  code, or \<open>Institute\<close> followed by the code when the catalog has none. With the catalog
  holding only code 1002 named Test College and the one file \<open>dse_pdfs/cap1/1002_4.pdf\<close>
  whose text is the lines John Doe and Jane Roe, a search string that case-folds to
  \<open>doe\<close> gives exactly one result, under cap1, and none under cap2.
\<close>

theorem search_all_pdfs_code_and_name:
  assumes "\<forall>r\<in>set [''cap1'', ''cap2'']. os_path_exists w (pdf_dir S @ ''/'' @ r) \<longrightarrow>
             os_listdir E w (pdf_dir S @ ''/'' @ r) = Inr (names r)"
  shows "search_all_pdfs S E w s =
     Inr (map (\<lambda>r. (r,
            if os_path_exists w (pdf_dir S @ ''/'' @ r)
            then map (\<lambda>f. \<lparr> institute_code = takeWhile (\<lambda>c. c \<noteq> CHR ''_'') f,
                             college_name =
                               (case map_of (colleges_data S) (takeWhile (\<lambda>c. c \<noteq> CHR ''_'') f) of
                                  None \<Rightarrow> ''Institute '' @ takeWhile (\<lambda>c. c \<noteq> CHR ''_'') f
                                | Some c \<Rightarrow> name c),
                             pdf_file = f,
                             context_lines =
                               snd (search_pdf E w (os_path_join (pdf_dir S @ ''/'' @ r) f) s) \<rparr>)
                   (filter (\<lambda>f. endswith f ''.pdf'' \<and>
                                 fst (search_pdf E w (os_path_join (pdf_dir S @ ''/'' @ r) f) s))
                      (names r))
            else [])) [''cap1'', ''cap2'']) \<and>
   (lower s = ''doe'' \<longrightarrow>
      search_all_pdfs
        (init\<lparr>colleges_data :=
                [(''1002'', \<lparr>sr_no = n, name = ''Test College'', code = ''1002''\<rparr>)]\<rparr>)
        example_env (example_world [(''dse_pdfs/cap1/1002_4.pdf'', ''roll'')]) s =
      Inr [(''cap1'', [\<lparr> institute_code = ''1002'', college_name = ''Test College'',
                         pdf_file = ''1002_4.pdf'', context_lines = [''John Doe''] \<rparr>]),
           (''cap2'', [])])"
proof -
  have ex: "lower s = ''doe'' \<longrightarrow>
      search_all_pdfs
        (init\<lparr>colleges_data :=
                [(''1002'', \<lparr>sr_no = n, name = ''Test College'', code = ''1002''\<rparr>)]\<rparr>)
        example_env (example_world [(''dse_pdfs/cap1/1002_4.pdf'', ''roll'')]) s =
      Inr [(''cap1'', [\<lparr> institute_code = ''1002'', college_name = ''Test College'',
                         pdf_file = ''1002_4.pdf'', context_lines = [''John Doe''] \<rparr>]),
           (''cap2'', [])]"
    using ex_search_all [of n] search_all_pdfs_lower [of _ _ _ s] by metis
  show ?thesis
    unfolding search_all_pdfs_def [of S]
    by (rule conjI [OF search_rounds_entries [OF assms] ex])
qed

theorem search_all_pdfs_code_and_name_witness:
  "search_all_pdfs
     (init\<lparr>colleges_data :=
             [(''1002'', \<lparr>sr_no = ''1'', name = ''Test College'', code = ''1002''\<rparr>)]\<rparr>)
     example_env
     (example_world [(''dse_pdfs/cap1/1002_4.pdf'', ''roll''), (''dse_pdfs/cap2/2008_4.pdf'', ''family''),
                     (''dse_pdfs/cap2/notes.txt'', ''roll'')])
     ''DoE'' =
   Inr [(''cap1'', [\<lparr> institute_code = ''1002'', college_name = ''Test College'',
                      pdf_file = ''1002_4.pdf'', context_lines = [''John Doe''] \<rparr>]),
        (''cap2'', [\<lparr> institute_code = ''2008'', college_name = ''Institute 2008'',
                      pdf_file = ''2008_4.pdf'',
                      context_lines = [''Doe A'', ''Doe B'', ''Doe C''] \<rparr>])]"
proof -
  let ?S = "init\<lparr>colleges_data :=
             [(''1002'', \<lparr>sr_no = ''1'', name = ''Test College'', code = ''1002''\<rparr>)]\<rparr>"
  let ?w = "example_world [(''dse_pdfs/cap1/1002_4.pdf'', ''roll''), (''dse_pdfs/cap2/2008_4.pdf'', ''family''),
                           (''dse_pdfs/cap2/notes.txt'', ''roll'')]"
  let ?names = "\<lambda>r. if r = ''cap1'' then [''1002_4.pdf''] else [''2008_4.pdf'', ''notes.txt'']"
  have pd: "pdf_dir ?S = ''dse_pdfs''" by (simp add: init_def)
  have cd: "colleges_data ?S = [(''1002'', \<lparr>sr_no = ''1'', name = ''Test College'', code = ''1002''\<rparr>)]"
    by simp
  have l1: "os_listdir example_env ?w ''dse_pdfs/cap1'' = Inr [''1002_4.pdf'']"
    by (simp add: os_listdir_def example_world_def dirname_def basename_def)
  have l2: "os_listdir example_env ?w ''dse_pdfs/cap2'' = Inr [''2008_4.pdf'', ''notes.txt'']"
    by (simp add: os_listdir_def example_world_def dirname_def basename_def)
  have e1: "os_path_exists ?w ''dse_pdfs/cap1''" and e2: "os_path_exists ?w ''dse_pdfs/cap2''"
    by (simp_all add: os_path_exists_def example_world_def)
  have a: "\<forall>r\<in>set [''cap1'', ''cap2'']. os_path_exists ?w (pdf_dir ?S @ ''/'' @ r) \<longrightarrow>
             os_listdir example_env ?w (pdf_dir ?S @ ''/'' @ r) = Inr (?names r)"
    unfolding pd using l1 l2 by simp
  have j1: "os_path_join ''dse_pdfs/cap1'' ''1002_4.pdf'' = ''dse_pdfs/cap1/1002_4.pdf''"
    and j2: "os_path_join ''dse_pdfs/cap2'' ''2008_4.pdf'' = ''dse_pdfs/cap2/2008_4.pdf''"
    by (simp_all add: os_path_join_def endswith_def)
  have s1: "search_pdf example_env ?w ''dse_pdfs/cap1/1002_4.pdf'' ''DoE'' = (True, [''John Doe''])"
    by (simp add: search_pdf_def open_pdf_def example_env_def example_world_def
        lower_eval newline_def strip_def is_space_def)
  have s2: "search_pdf example_env ?w ''dse_pdfs/cap2/2008_4.pdf'' ''DoE'' =
              (True, [''Doe A'', ''Doe B'', ''Doe C''])"
    by (simp add: search_pdf_def open_pdf_def example_env_def example_world_def
        lower_eval newline_def strip_def is_space_def)
  have en: "endswith ''1002_4.pdf'' ''.pdf''" "endswith ''2008_4.pdf'' ''.pdf''"
    "\<not> endswith ''notes.txt'' ''.pdf''"
    by (simp_all add: endswith_def)
  note r = search_all_pdfs_code_and_name [OF a, of "''DoE''", THEN conjunct1]
  show ?thesis
    unfolding r pd cd by (simp add: e1 e2 en j1 j2 s1 s2)
qed





section \<open>The catalog builder\<close>

lemma map_of_scrape_row:
  "map_of (scrape_row cells cd) k =
     (if 3 \<le> length cells \<and> isdigit (cells ! 1) \<and> cells ! 1 = k
      then Some \<lparr> sr_no = cells ! 0, name = cells ! 2, code = cells ! 1 \<rparr>
      else map_of cd k)"
  by (auto simp: scrape_row_def Let_def update_conv')

lemma map_of_fold_scrape_row:
  "map_of (fold scrape_row rows cd) k =
     (case find (\<lambda>cells. cells ! 1 = k)
             (rev (filter (\<lambda>cells. 3 \<le> length cells \<and> isdigit (cells ! 1)) rows)) of
        None \<Rightarrow> map_of cd k
      | Some cells \<Rightarrow> Some \<lparr> sr_no = cells ! 0, name = cells ! 2, code = cells ! 1 \<rparr>)"
proof (induction rows rule: rev_induct)
  case Nil
  show ?case by simp
next
  case (snoc r rows)
  show ?case using snoc.IH by (auto simp: map_of_scrape_row)
qed

lemma map_of_fold_fallback_entry:
  "map_of (fold fallback_entry cs cd) k =
     (if k \<in> str_nat ` set cs then Some \<lparr> sr_no = [], name = ''Institute '' @ k, code = k \<rparr>
      else map_of cd k)"
  by (induction cs arbitrary: cd) (auto simp: fallback_entry_def update_conv')

lemma map_of_fold_ranges:
  "map_of (fold (\<lambda>(lo, hi) cd. fold fallback_entry [lo..<hi] cd) rs cd) k =
     (if k \<in> str_nat ` (\<Union>(lo, hi)\<in>set rs. {lo..<hi})
      then Some \<lparr> sr_no = [], name = ''Institute '' @ k, code = k \<rparr>
      else map_of cd k)"
proof (induction rs arbitrary: cd)
  case Nil
  show ?case by simp
next
  case (Cons r rs)
  obtain lo hi where r: "r = (lo, hi)" by (cases r)
  show ?case unfolding r
    by (simp add: Cons.IH map_of_fold_fallback_entry image_Un)
qed

text \<open>The catalog keeps the codes distinct, as a dict does.\<close>

lemma distinct_fold_scrape_row:
  "distinct (map fst cd) \<Longrightarrow> distinct (map fst (fold scrape_row rows cd))"
  by (induction rows arbitrary: cd) (simp_all add: scrape_row_def Let_def distinct_update)

lemma distinct_fold_fallback_entry:
  "distinct (map fst cd) \<Longrightarrow> distinct (map fst (fold fallback_entry cs cd))"
  by (induction cs arbitrary: cd) (simp_all add: fallback_entry_def distinct_update)

lemma distinct_fold_ranges:
  "distinct (map fst cd) \<Longrightarrow>
   distinct (map fst (fold (\<lambda>(lo, hi) cd. fold fallback_entry [lo..<hi] cd) rs cd))"
  by (induction rs arbitrary: cd) (auto simp: distinct_fold_fallback_entry)

lemma distinct_scrape_college_data:
  "distinct (map fst (colleges_data S)) \<Longrightarrow>
   distinct (map fst (colleges_data (fst (scrape_college_data S page))))"
  by (cases page)
     (simp_all add: scrape_college_data_def generate_fallback_codes_def
        distinct_fold_scrape_row distinct_fold_ranges)

text \<open>
  C3. On a fetched page the first row is skipped, and a later row counts only when it
  has at least three cells and its second cell passes \<open>str.isdigit\<close>. After the scrape the
  catalog maps a code to the entry of the last counting row that carries it, with the
  sequence number, the code and the name taken from cells 0, 1 and 2; a code that no
  counting row carries keeps what the catalog had for it before.
\<close>

theorem scrape_rows_last_wins:
  "snd (scrape_college_data S (Inr rows)) = True \<and>
   map_of (colleges_data (fst (scrape_college_data S (Inr rows)))) k =
     (case find (\<lambda>cells. cells ! 1 = k)
             (rev (filter (\<lambda>cells. 3 \<le> length cells \<and> isdigit (cells ! 1)) (drop 1 rows))) of
        None \<Rightarrow> map_of (colleges_data S) k
      | Some cells \<Rightarrow> Some \<lparr> sr_no = cells ! 0, name = cells ! 2, code = cells ! 1 \<rparr>)"
  by (simp add: scrape_college_data_def map_of_fold_scrape_row)

theorem scrape_rows_last_wins_witness:
  "map_of (colleges_data (fst (scrape_college_data init (Inr rows0)))) ''1002'' =
     Some \<lparr> sr_no = ''4'', name = ''Second College'', code = ''1002'' \<rparr> \<and>
   map_of (colleges_data (fst (scrape_college_data init (Inr rows0)))) ''1001'' = None \<and>
   map_of (colleges_data (fst (scrape_college_data init (Inr rows0)))) ''10a2'' = None \<and>
   map_of (colleges_data (fst (scrape_college_data init (Inr rows0)))) ''1003'' = None \<and>
   map_of (colleges_data (fst (scrape_college_data init (Inr rows0)))) (''10'' @ [CHR 0xB2]) =
     Some \<lparr> sr_no = ''5'', name = ''Superscript College'', code = ''10'' @ [CHR 0xB2] \<rparr>"
proof -
  have e: "colleges_data init = []" by (simp add: init_def)
  have a: "map_of (colleges_data (fst (scrape_college_data init (Inr rows0)))) ''1002'' =
             Some \<lparr> sr_no = ''4'', name = ''Second College'', code = ''1002'' \<rparr>"
    using scrape_rows_last_wins [of init rows0 "''1002''", THEN conjunct2]
    by (simp add: rows0_def isdigit_eval e)
  have b: "map_of (colleges_data (fst (scrape_college_data init (Inr rows0)))) ''1001'' = None"
    using scrape_rows_last_wins [of init rows0 "''1001''", THEN conjunct2]
    by (simp add: rows0_def isdigit_eval e)
  have c: "map_of (colleges_data (fst (scrape_college_data init (Inr rows0)))) ''10a2'' = None"
    using scrape_rows_last_wins [of init rows0 "''10a2''", THEN conjunct2]
    by (simp add: rows0_def isdigit_eval e)
  have d: "map_of (colleges_data (fst (scrape_college_data init (Inr rows0)))) ''1003'' = None"
    using scrape_rows_last_wins [of init rows0 "''1003''", THEN conjunct2]
    by (simp add: rows0_def isdigit_eval e)
  have s: "map_of (colleges_data (fst (scrape_college_data init (Inr rows0)))) (''10'' @ [CHR 0xB2]) =
             Some \<lparr> sr_no = ''5'', name = ''Superscript College'', code = ''10'' @ [CHR 0xB2] \<rparr>"
    using scrape_rows_last_wins [of init rows0 "''10'' @ [CHR 0xB2]", THEN conjunct2]
    by (simp add: rows0_def isdigit_eval e)
  show ?thesis by (rule conjI [OF a conjI [OF b conjI [OF c conjI [OF d s]]]])
qed

text \<open>
  C4. When the fetch fails, in whatever way, on a searcher whose catalog is still empty,
  \<open>scrape_college_data\<close> returns \<open>False\<close> and leaves a catalog that is not empty,
  whose codes are exactly the decimal strings of the numbers in the eight fallback
  ranges, each mapped to the entry named \<open>Institute\<close> followed by the code, with an
  empty sequence number.
\<close>

theorem fallback_catalog:
  assumes "colleges_data S = []"
  shows "snd (scrape_college_data S (Inl e)) = False \<and>
         colleges_data (fst (scrape_college_data S (Inl e))) \<noteq> [] \<and>
         fst ` set (colleges_data (fst (scrape_college_data S (Inl e)))) =
           str_nat ` (\<Union>(lo, hi)\<in>set code_ranges. {lo..<hi}) \<and>
         (\<forall>k\<in>fst ` set (colleges_data (fst (scrape_college_data S (Inl e)))).
            map_of (colleges_data (fst (scrape_college_data S (Inl e)))) k =
              Some \<lparr> sr_no = [], name = ''Institute '' @ k, code = k \<rparr>)"
proof -
  let ?cd = "colleges_data (fst (scrape_college_data S (Inl e)))"
  have m: "map_of ?cd k =
             (if k \<in> str_nat ` (\<Union>(lo, hi)\<in>set code_ranges. {lo..<hi})
              then Some \<lparr> sr_no = [], name = ''Institute '' @ k, code = k \<rparr> else None)" for k
    using assms by (simp add: scrape_college_data_def generate_fallback_codes_def map_of_fold_ranges)
  have d: "fst ` set ?cd = str_nat ` (\<Union>(lo, hi)\<in>set code_ranges. {lo..<hi})"
  proof -
    have "dom (map_of ?cd) = str_nat ` (\<Union>(lo, hi)\<in>set code_ranges. {lo..<hi})"
      by (auto simp: dom_def m)
    then show ?thesis by (simp add: dom_map_of_conv_image_fst)
  qed
  have "(1002::nat) \<in> (\<Union>(lo, hi)\<in>set code_ranges. {lo..<hi})"
    by (simp add: code_ranges_def)
  then have "fst ` set ?cd \<noteq> {}" unfolding d by blast
  then have ne: "?cd \<noteq> []" by auto
  have f: "snd (scrape_college_data S (Inl e)) = False" by (simp add: scrape_college_data_def)
  have v: "\<forall>k\<in>fst ` set ?cd. map_of ?cd k = Some \<lparr> sr_no = [], name = ''Institute '' @ k, code = k \<rparr>"
    unfolding d using m by simp
  show ?thesis using f ne d v by blast
qed

theorem fallback_catalog_witness:
  "snd (scrape_college_data init (Inl (NetworkError ''timed out''))) = False \<and>
   map_of (colleges_data (fst (scrape_college_data init (Inl (NetworkError ''timed out''))))) ''14005'' =
     Some \<lparr> sr_no = [], name = ''Institute 14005'', code = ''14005'' \<rparr>"
proof -
  let ?cd = "colleges_data (fst (scrape_college_data init (Inl (NetworkError ''timed out''))))"
  have e: "colleges_data init = []" by (simp add: init_def)
  note r = fallback_catalog [OF e, of "NetworkError ''timed out''"]
  have s: "str_nat 14005 = ''14005''" by (simp add: str_nat_small str_nat_big digit_char_def)
  have "(14005::nat) \<in> (\<Union>(lo, hi)\<in>set code_ranges. {lo..<hi})" by (simp add: code_ranges_def)
  then have "str_nat 14005 \<in> str_nat ` (\<Union>(lo, hi)\<in>set code_ranges. {lo..<hi})" by (rule imageI)
  then have mem: "''14005'' \<in> fst ` set ?cd"
    unfolding s r [THEN conjunct2, THEN conjunct2, THEN conjunct1] .
  have v: "map_of ?cd ''14005'' = Some \<lparr> sr_no = [], name = ''Institute '' @ ''14005'', code = ''14005'' \<rparr>"
    by (rule r [THEN conjunct2, THEN conjunct2, THEN conjunct2, THEN bspec, OF mem])
  have v': "map_of ?cd ''14005'' = Some \<lparr> sr_no = [], name = ''Institute 14005'', code = ''14005'' \<rparr>"
    using v by (simp only: append.simps)
  show ?thesis by (rule conjI [OF r [THEN conjunct1] v'])
qed

section \<open>The download manager\<close>

lemma count_result_sum:
  "count_result out (s, a, f) = (s', a', f') \<Longrightarrow> s' + a' + f' = s + a + f + 1"
  by (cases out) (auto split: if_splits)

lemma fold_count_result_sum:
  "fold count_result outs (s, a, f) = (s', a', f') \<Longrightarrow> s' + a' + f' = s + a + f + length outs"
proof (induction outs arbitrary: s a f)
  case Nil
  then show ?case by simp
next
  case (Cons out outs)
  obtain s1 a1 f1 where st: "count_result out (s, a, f) = (s1, a1, f1)"
    by (cases "count_result out (s, a, f)") auto
  from Cons.prems st have "fold count_result outs (s1, a1, f1) = (s', a', f')" by simp
  from Cons.IH [OF this] count_result_sum [OF st] show ?case by simp
qed

lemma count_results_sum:
  "count_results outs = (s, a, f) \<Longrightarrow> s + a + f = length outs"
  unfolding count_results_def by (drule fold_count_result_sum) simp

lemma length_download_tasks: "length (download_tasks cd) = 2 * length cd"
  by (induction cd) (simp_all add: download_tasks_def)

lemma length_run_tasks: "length (snd (run_tasks S E w ts)) = length ts"
  by (induction ts arbitrary: w) (auto simp: Let_def split_beta)

text \<open>
  C5. When the local path of a code and round already exists, \<open>download_pdf\<close> returns
  the world as it was, so no URL is fetched and no file is written or changed, and
  reports success with the message \<open>Already exists\<close>.
\<close>

theorem download_pdf_already_present:
  assumes "os_path_exists w (pdf_dir S @ ''/'' @ cap_round @ ''/'' @ ic @ ''_4.pdf'')"
  shows "download_pdf S E w ic cap_round =
           (w, Inr (pdf_dir S @ ''/'' @ cap_round @ ''/'' @ ic @ ''_4.pdf'', True, ''Already exists''))"
  using assms by (simp add: download_pdf_def)

theorem download_pdf_already_present_witness:
  "download_pdf init example_env (example_world [(''dse_pdfs/cap1/1002_4.pdf'', ''roll'')]) ''1002'' ''cap1'' =
     (example_world [(''dse_pdfs/cap1/1002_4.pdf'', ''roll'')],
      Inr (''dse_pdfs/cap1/1002_4.pdf'', True, ''Already exists''))"
proof -
  have p: "pdf_dir init @ ''/'' @ ''cap1'' @ ''/'' @ ''1002'' @ ''_4.pdf'' = ''dse_pdfs/cap1/1002_4.pdf''"
    by (simp add: init_def)
  have a: "os_path_exists (example_world [(''dse_pdfs/cap1/1002_4.pdf'', ''roll'')])
             (pdf_dir init @ ''/'' @ ''cap1'' @ ''/'' @ ''1002'' @ ''_4.pdf'')"
    unfolding p by (simp add: os_path_exists_def example_world_def)
  show ?thesis using download_pdf_already_present [OF a, of example_env] unfolding p .
qed

text \<open>
  C6. When the local path does not exist: a response that passes the status check and
  whose content type does not contain \<open>application/pdf\<close> gives failure with the message
  \<open>Not a PDF\<close>; a request exception, raised by the fetch or by the status check, gives
  failure with \<open>Error:\<close> and the first 50 characters of its text; in both only the
  request is logged. Whenever the task does not report a download, the files and
  directories are as before.
\<close>

theorem download_pdf_failure_writes_nothing:
  assumes "\<not> os_path_exists w (pdf_dir S @ ''/'' @ cap_round @ ''/'' @ ic @ ''_4.pdf'')"
    and "pdf_url = base_url S @ ''admin/allotment/'' @ cap_round @ ''/'' @ ic @ ''_4.pdf''"
    and "local_path = pdf_dir S @ ''/'' @ cap_round @ ''/'' @ ic @ ''_4.pdf''"
  shows "(\<forall>r. session_get E pdf_url = Response r \<and> raise_for_status r = None \<and>
              \<not> sublist ''application/pdf'' (case content_type r of None \<Rightarrow> [] | Some ct \<Rightarrow> ct) \<longrightarrow>
            download_pdf S E w ic cap_round =
              (w\<lparr>requests := requests w @ [pdf_url]\<rparr>, Inr (local_path, False, ''Not a PDF''))) \<and>
         (\<forall>e. session_get E pdf_url = RequestException e \<or>
              (\<exists>r. session_get E pdf_url = Response r \<and> raise_for_status r = Some e) \<longrightarrow>
            download_pdf S E w ic cap_round =
              (w\<lparr>requests := requests w @ [pdf_url]\<rparr>, Inr (local_path, False, ''Error: '' @ take 50 e))) \<and>
         (\<forall>w' out. download_pdf S E w ic cap_round = (w', out) \<and>
                   out \<noteq> Inr (local_path, True, ''Downloaded'') \<longrightarrow>
            files w' = files w \<and> dirs w' = dirs w)"
  using assms
  by (auto simp: download_pdf_def Let_def str_in_iff_sublist
      split: get_result.splits option.splits sum.splits if_splits)

theorem download_pdf_failure_writes_nothing_witness:
  "download_pdf init html_env (example_world []) ''1002'' ''cap1'' =
     ((example_world [])\<lparr>requests :=
        [''https://dse2025.mahacet.org.in/dse25/admin/allotment/cap1/1002_4.pdf'']\<rparr>,
      Inr (''dse_pdfs/cap1/1002_4.pdf'', False, ''Not a PDF'')) \<and>
   download_pdf init example_env (example_world []) ''1002'' ''cap1'' =
     ((example_world [])\<lparr>requests :=
        [''https://dse2025.mahacet.org.in/dse25/admin/allotment/cap1/1002_4.pdf'']\<rparr>,
      Inr (''dse_pdfs/cap1/1002_4.pdf'', False, ''Error: Connection refused''))"
proof -
  let ?u = "''https://dse2025.mahacet.org.in/dse25/admin/allotment/cap1/1002_4.pdf''"
  let ?p = "''dse_pdfs/cap1/1002_4.pdf''"
  let ?r = "\<lparr> status_code = 200, reason = ''OK'', url = ?u,
              content_type = Some ''text/html'', content = ''<html></html>'' \<rparr>"
  have p: "pdf_dir init @ ''/'' @ ''cap1'' @ ''/'' @ ''1002'' @ ''_4.pdf'' = ?p"
    by (simp add: init_def)
  have a: "\<not> os_path_exists (example_world []) (pdf_dir init @ ''/'' @ ''cap1'' @ ''/'' @ ''1002'' @ ''_4.pdf'')"
    unfolding p by (simp add: os_path_exists_def example_world_def)
  have u: "?u = base_url init @ ''admin/allotment/'' @ ''cap1'' @ ''/'' @ ''1002'' @ ''_4.pdf''"
    by (simp add: init_def)
  note r1 = download_pdf_failure_writes_nothing [OF a u p [symmetric], of html_env]
  note r2 = download_pdf_failure_writes_nothing [OF a u p [symmetric], of example_env]
  have g: "session_get html_env ?u = Response ?r" by (simp add: html_env_def)
  have ok: "raise_for_status ?r = None" by (simp add: raise_for_status_def)
  have "\<not> str_in ''application/pdf'' ''text/html''" by simp
  then have ct: "\<not> sublist ''application/pdf'' (case content_type ?r of None \<Rightarrow> [] | Some ct \<Rightarrow> ct)"
    by (simp add: str_in_iff_sublist)
  have rq: "requests (example_world []) @ [?u] = [?u]" by (simp add: example_world_def)
  have first: "download_pdf init html_env (example_world []) ''1002'' ''cap1'' =
     ((example_world [])\<lparr>requests := [?u]\<rparr>, Inr (?p, False, ''Not a PDF''))"
    using r1 [THEN conjunct1, THEN spec, THEN mp, OF conjI [OF g conjI [OF ok ct]]]
    unfolding rq .
  have h: "session_get example_env ?u = RequestException ''Connection refused''"
    by (simp add: example_env_def)
  have msg: "''Error: '' @ take 50 ''Connection refused'' = ''Error: Connection refused''" by simp
  have second: "download_pdf init example_env (example_world []) ''1002'' ''cap1'' =
     ((example_world [])\<lparr>requests := [?u]\<rparr>, Inr (?p, False, ''Error: Connection refused''))"
    using r2 [THEN conjunct2, THEN conjunct1, THEN spec, THEN mp, OF disjI1, OF h]
    unfolding rq msg .
  show ?thesis by (rule conjI [OF first second])
qed

text \<open>
  C10. For a catalog with distinct codes, every order in which the tasks complete and
  every outcome of each task: the three tallies add up to twice the number of codes.
  The same holds for the tallies of \<open>download_all_pdfs\<close> on any world.
\<close>

theorem tallies_sum_to_twice_catalog:
  assumes "distinct (map fst cd)"
  shows "(\<forall>completed outcome_of s a f.
            mset completed = mset (download_tasks cd) \<and>
            count_results (map outcome_of completed) = (s, a, f) \<longrightarrow>
            s + a + f = 2 * card (fst ` set cd)) \<and>
         (\<forall>S E w s a f.
            colleges_data S = cd \<and> snd (download_all_pdfs S E w) = (s, a, f) \<longrightarrow>
            s + a + f = 2 * card (fst ` set cd))"
proof -
  have c: "card (fst ` set cd) = length cd"
    using assms by (metis distinct_card length_map set_map)
  have one: "s + a + f = 2 * card (fst ` set cd)"
    if "mset completed = mset (download_tasks cd)"
      and "count_results (map outcome_of completed) = (s, a, f)"
    for completed :: "(string \<times> string) list" and outcome_of s a f
  proof -
    have "length completed = length (download_tasks cd)"
      using that(1) by (rule mset_eq_length)
    with count_results_sum [OF that(2)] show ?thesis
      by (simp add: c length_download_tasks)
  qed
  have two: "s + a + f = 2 * card (fst ` set cd)"
    if "colleges_data S = cd" and "snd (download_all_pdfs S E w) = (s, a, f)"
    for S E w s a f
  proof -
    have "count_results (snd (run_tasks S E w (download_tasks cd))) = (s, a, f)"
      using that by (simp add: download_all_pdfs_def split_beta Let_def)
    from count_results_sum [OF this] show ?thesis
      by (simp add: c length_download_tasks length_run_tasks)
  qed
  show ?thesis using one two by blast
qed

theorem tallies_sum_to_twice_catalog_witness:
  "count_results (map example_outcome [(''1002'', ''cap2''), (''1002'', ''cap1'')]) = (0, 1, 1) \<and>
   (0::nat) + 1 + 1 = 2 * card (fst ` set [(''1002'', \<lparr>sr_no = ''1'', name = ''Test College'', code = ''1002''\<rparr>)])"
proof -
  let ?cd = "[(''1002'', \<lparr>sr_no = ''1'', name = ''Test College'', code = ''1002''\<rparr>)]"
  have d: "distinct (map fst ?cd)" by simp
  have m: "mset [(''1002'', ''cap2''), (''1002'', ''cap1'')] = mset (download_tasks ?cd)"
    by (simp add: download_tasks_def)
  have t: "count_results (map example_outcome [(''1002'', ''cap2''), (''1002'', ''cap1'')]) = (0, 1, 1)"
    by (simp add: count_results_def example_outcome_def)
  show ?thesis
    by (rule conjI [OF t tallies_sum_to_twice_catalog [OF d, THEN conjunct1, THEN spec, THEN spec,
          THEN spec, THEN spec, THEN spec, THEN mp, OF conjI [OF m t]]])
qed

section \<open>The interactive driver\<close>

text \<open>
  C8 (as amended). After the first prompt, \<open>download_all_pdfs\<close> is not called exactly
  when the answer, trimmed and case-folded (\<open>str.lower\<close>), is the single letter \<open>n\<close>;
  then the world is left as it was. For every other answer, the empty one and the word
  \<open>no\<close> included, it is called.
\<close>

theorem download_skipped_iff_n:
  "(download_summary (run S page E w (answer # rest)) = None \<longleftrightarrow> lower (strip answer) = ''n'') \<and>
   (lower (strip answer) = ''n'' \<longrightarrow> world_after (run S page E w (answer # rest)) = w) \<and>
   (lower (strip answer) \<noteq> ''n'' \<longrightarrow>
      download_summary (run S page E w (answer # rest)) =
        Some (snd (download_all_pdfs (fst (scrape_college_data S page)) E w)) \<and>
      world_after (run S page E w (answer # rest)) =
        fst (download_all_pdfs (fst (scrape_college_data S page)) E w))"
  by (simp add: run_def Let_def split_beta)

lemma run_tasks_example:
  "run_tasks (fst (scrape_college_data init page0)) example_env (example_world [])
     (download_tasks (colleges_data (fst (scrape_college_data init page0)))) =
   ((example_world [])\<lparr>requests :=
       [''https://dse2025.mahacet.org.in/dse25/admin/allotment/cap1/1002_4.pdf'',
        ''https://dse2025.mahacet.org.in/dse25/admin/allotment/cap2/1002_4.pdf'']\<rparr>,
    [Inr (''dse_pdfs/cap1/1002_4.pdf'', False, ''Error: Connection refused''),
     Inr (''dse_pdfs/cap2/1002_4.pdf'', False, ''Error: Connection refused'')])"
  by (simp add: scrape_college_data_def page0_def scrape_row_def isdigit_eval init_def Let_def
      download_tasks_def download_pdf_def os_path_exists_def example_world_def example_env_def)

lemma download_all_pdfs_example:
  "download_all_pdfs (fst (scrape_college_data init page0)) example_env (example_world []) =
   ((example_world [])\<lparr>requests :=
       [''https://dse2025.mahacet.org.in/dse25/admin/allotment/cap1/1002_4.pdf'',
        ''https://dse2025.mahacet.org.in/dse25/admin/allotment/cap2/1002_4.pdf'']\<rparr>,
    (0, 0, 2))"
  unfolding download_all_pdfs_def run_tasks_example
  by (simp add: count_results_def)

theorem download_skipped_iff_n_witness:
  "download_summary (run init page0 example_env (example_world []) ['' N '']) = None \<and>
   world_after (run init page0 example_env (example_world []) ['' N '']) = example_world [] \<and>
   download_summary (run init page0 example_env (example_world []) ['''']) = Some (0, 0, 2) \<and>
   download_summary (run init page0 example_env (example_world []) [[CHR 0xA0] @ ''n'']) = None"
proof -
  have n: "lower (strip '' N '') = ''n''"
    by (simp add: strip_def is_space_def lower_eval)
  have e: "lower (strip '''') \<noteq> ''n''"
    by (simp add: strip_def lower_def)
  note r1 = download_skipped_iff_n [of init page0 example_env "example_world []" "'' N ''" "[]"]
  note r2 = download_skipped_iff_n [of init page0 example_env "example_world []" "''''" "[]"]
  have a: "download_summary (run init page0 example_env (example_world []) ['' N '']) = None"
    by (rule r1 [THEN conjunct1, THEN iffD2, OF n])
  have b: "world_after (run init page0 example_env (example_world []) ['' N '']) = example_world []"
    by (rule r1 [THEN conjunct2, THEN conjunct1, THEN mp, OF n])
  have c: "download_summary (run init page0 example_env (example_world []) ['''']) = Some (0, 0, 2)"
    using r2 [THEN conjunct2, THEN conjunct2, THEN mp, OF e, THEN conjunct1]
    unfolding download_all_pdfs_example by (simp only: snd_conv)
  have nb: "lower (strip ([CHR 0xA0] @ ''n'')) = ''n''"
    by (simp add: strip_def is_space_def lower_eval)
  have d: "download_summary (run init page0 example_env (example_world []) [[CHR 0xA0] @ ''n'']) = None"
    by (rule download_skipped_iff_n [of init page0 example_env "example_world []" "[CHR 0xA0] @ ''n''" "[]",
          THEN conjunct1, THEN iffD2, OF nb])
  show ?thesis by (rule conjI [OF a conjI [OF b conjI [OF c d]]])
qed

text \<open>
  C8 as stated fails for the answer \<open>no\<close>: it is not the letter \<open>n\<close>, so the downloads
  run and both URLs of the one college are fetched.
\<close>

theorem answer_no_counterexample:
  "lower (strip ''no'') = ''no'' \<and>
   download_summary (run init page0 example_env (example_world []) [''no'']) = Some (0, 0, 2) \<and>
   requests (world_after (run init page0 example_env (example_world []) [''no''])) =
     [''https://dse2025.mahacet.org.in/dse25/admin/allotment/cap1/1002_4.pdf'',
      ''https://dse2025.mahacet.org.in/dse25/admin/allotment/cap2/1002_4.pdf'']"
proof -
  have n: "lower (strip ''no'') = ''no''"
    by (simp add: strip_def is_space_def lower_eval)
  have r: "run init page0 example_env (example_world []) [''no''] =
           \<lparr> searcher_after = fst (scrape_college_data init page0),
             world_after = fst (download_all_pdfs (fst (scrape_college_data init page0)) example_env (example_world [])),
             download_summary = Some (snd (download_all_pdfs (fst (scrape_college_data init page0)) example_env (example_world []))),
             searches = [], ended = Raised ''EOFError'' \<rparr>"
    by (simp add: run_def n split_beta Let_def)
  show ?thesis unfolding r download_all_pdfs_example using n by simp
qed

end
